theory Spec2Isabelle
  imports Complex_Main "HOL-Library.Monad_Syntax" "HOL-Library.Multiset"
begin

section \<open>Data model\<close>

text \<open>
  The lattice \<open>alloy\<close> of \<open>alloy_generator.py\<close> is a two-dimensional numpy array of
  shape \<open>(N, N)\<close> whose cells hold the values \<open>1\<close> (an A atom) and \<open>0\<close> (a B atom).
  It is modelled as a list of rows. The cells are small whole numbers (sums of at most
  four of them are formed), so they are modelled as integers.
  A Python exception is the value \<open>None\<close>; the comments name the exception.
\<close>

type_synonym lattice = "int list list"

definition wf_lattice :: "int \<Rightarrow> lattice \<Rightarrow> bool" where
  "wf_lattice N alloy \<longleftrightarrow>
     0 \<le> N \<and> int (length alloy) = N \<and> list_all (\<lambda>row. int (length row) = N) alloy"

definition binary :: "lattice \<Rightarrow> bool" where
  "binary alloy \<longleftrightarrow> list_all (list_all (\<lambda>x. x = 0 \<or> x = 1)) alloy"

text \<open>
  numpy indexing along one axis of extent \<open>n\<close>: an index in \<open>[0, n)\<close> is used as it is,
  an index in \<open>[-n, 0)\<close> counts from the end, anything else raises IndexError.
\<close>

definition np_index :: "nat \<Rightarrow> int \<Rightarrow> nat option" where
  "np_index n i =
     (if 0 \<le> i \<and> i < int n then Some (nat i)
      else if - int n \<le> i \<and> i < 0 then Some (nat (i + int n))
      else None)"

text \<open>The read \<open>alloy[i, j]\<close> and the write \<open>alloy[i, j] = v\<close>.\<close>

definition get2 :: "lattice \<Rightarrow> int \<Rightarrow> int \<Rightarrow> int option" where
  "get2 alloy i j = do {
     r \<leftarrow> np_index (length alloy) i;
     c \<leftarrow> np_index (length (alloy ! r)) j;
     Some (alloy ! r ! c)
   }"

definition set2 :: "lattice \<Rightarrow> int \<Rightarrow> int \<Rightarrow> int \<Rightarrow> lattice option" where
  "set2 alloy i j v = do {
     r \<leftarrow> np_index (length alloy) i;
     c \<leftarrow> np_index (length (alloy ! r)) j;
     Some (alloy[r := (alloy ! r)[c := v]])
   }"

text \<open>Python's \<open>range(n)\<close> and a \<open>for\<close> loop whose body may raise.\<close>

definition py_range :: "int \<Rightarrow> int list" where
  "py_range n = map int [0..<nat n]"

fun for_loop :: "'a list \<Rightarrow> ('a \<Rightarrow> 's \<Rightarrow> 's option) \<Rightarrow> 's \<Rightarrow> 's option" where
  "for_loop [] body s = Some s"
| "for_loop (x # xs) body s =
     (case body x s of None \<Rightarrow> None | Some s' \<Rightarrow> for_loop xs body s')"

section \<open>Double-precision arithmetic\<close>

text \<open>
  The program computes with IEEE doubles (Python floats and numpy scalars). Their
  operations belong to Python and numpy, not to the program, and are a parameter of the
  model: a value of type \<open>'f\<close> is a double (a finite number, an infinity or a NaN) and
  \<open>ops\<close> holds the operations the program uses, each with the rounding, overflow and
  underflow it has. \<open>fl_of_real\<close> is the double of a literal or of an integer,
  \<open>fl_less\<close> the comparison \<open><\<close> (false on a NaN), \<open>fl_is_zero\<close> the test for a zero
  of either sign, and \<open>fl_trunc\<close> is Python's \<open>int\<close>, which truncates towards zero and
  raises on an infinity or a NaN. The theorems hold whatever these operations compute.
\<close>

record 'f float_ops =
  fl_of_real :: "real \<Rightarrow> 'f"
  fl_mul :: "'f \<Rightarrow> 'f \<Rightarrow> 'f"
  fl_sub :: "'f \<Rightarrow> 'f \<Rightarrow> 'f"
  fl_div :: "'f \<Rightarrow> 'f \<Rightarrow> 'f"
  fl_neg :: "'f \<Rightarrow> 'f"
  fl_exp :: "'f \<Rightarrow> 'f"
  fl_less :: "'f \<Rightarrow> 'f \<Rightarrow> bool"
  fl_is_zero :: "'f \<Rightarrow> bool"
  fl_trunc :: "'f \<Rightarrow> int option"

text \<open>Python's \<open>int\<close> of a number that is neither infinite nor a NaN.\<close>

definition py_int :: "real \<Rightarrow> int" where
  "py_int x = (if 0 \<le> x then \<lfloor>x\<rfloor> else \<lceil>x\<rceil>)"

text \<open>The arithmetic without rounding: a double is a real number. It agrees with the
  doubles wherever their results are exact.\<close>

definition exact_ops :: "real float_ops" where
  "exact_ops =
     \<lparr>fl_of_real = (\<lambda>x. x), fl_mul = (*), fl_sub = (-), fl_div = (/), fl_neg = uminus,
      fl_exp = exp, fl_less = (<), fl_is_zero = (\<lambda>x. x = 0), fl_trunc = (\<lambda>x. Some (py_int x))\<rparr>"

text \<open>The energy difference \<open>e\<close> is the Python integer \<open>0\<close> of line 66 or the numpy
  scalar of line 95.\<close>

datatype 'f py_num = PyInt int | NpFloat 'f

section \<open>The Monte Carlo step \<open>MC_swap\<close>\<close>

text \<open>
  The random numbers one call of \<open>MC_swap\<close> consumes are an explicit argument:
  \<open>random_atom\<close> is \<open>np.random.randint(0, N, 2)\<close>, \<open>random_neighbour\<close> is
  \<open>np.random.randint(1, 5, 1)\<close> and \<open>uniform\<close> is the double that
  \<open>np.random.uniform(0, 1)\<close> returns.
\<close>

record 'f rand =
  random_atom0 :: int
  random_atom1 :: int
  random_neighbour :: int
  uniform :: 'f

definition valid_rand :: "int \<Rightarrow> 'f rand \<Rightarrow> bool" where
  "valid_rand N rnd \<longleftrightarrow>
     0 \<le> random_atom0 rnd \<and> random_atom0 rnd < N \<and>
     0 \<le> random_atom1 rnd \<and> random_atom1 rnd < N \<and>
     1 \<le> random_neighbour rnd \<and> random_neighbour rnd \<le> 4"

text \<open>Lines 50 to 62: the site of the second atom. The last branch reads
  \<open>random_atom[0]\<close>, the row, for the column.\<close>

definition select_neighbour :: "int \<Rightarrow> int \<Rightarrow> int \<Rightarrow> int \<Rightarrow> int \<times> int" where
  "select_neighbour N r c d =
     (if d = 1 then ((r - 2) mod N, c)
      else if d = 2 then (r, c mod N)
      else if d = 3 then (r mod N, c)
      else (r, (r - 2) mod N))"

text \<open>Lines 70 to 73 and 75 to 78: the indices \<open>(up, down, left, right)\<close> around a site.\<close>

definition swap_index :: "int \<Rightarrow> int \<Rightarrow> int \<Rightarrow> int \<times> int \<times> int \<times> int" where
  "swap_index N row col = ((row - 2) mod N, row mod N, (col - 2) mod N, col mod N)"

text \<open>Lines 81 and 82: the sum of the four cells read around a site.\<close>

definition Bonds :: "lattice \<Rightarrow> int \<Rightarrow> int \<Rightarrow> int \<Rightarrow> int option" where
  "Bonds alloy N row col =
     (case swap_index N row col of (up, down, left, right) \<Rightarrow> do {
        a \<leftarrow> get2 alloy down col;
        b \<leftarrow> get2 alloy up col;
        c \<leftarrow> get2 alloy row right;
        d \<leftarrow> get2 alloy row left;
        Some (a + b + c + d)
      })"

text \<open>Lines 65 to 95: the energy difference \<open>e\<close> of the exchange. The bond counts are
  whole numbers of small size, exact as doubles; the product with \<open>E\<close> is a double
  multiplication.\<close>

definition energy ::
  "'f float_ops \<Rightarrow> lattice \<Rightarrow> int \<Rightarrow> 'f \<Rightarrow> int \<Rightarrow> int \<Rightarrow> int \<Rightarrow> int \<Rightarrow> int \<Rightarrow> int
     \<Rightarrow> 'f py_num option" where
  "energy ops alloy N E r c row2 column2 atom1 atom2 =
     (if atom1 = atom2 then Some (PyInt 0)
      else do {
        Bonds1 \<leftarrow> Bonds alloy N r c;
        Bonds2 \<leftarrow> Bonds alloy N row2 column2;
        (case (if atom1 = 0 then (Bonds1, 4 - Bonds1, 4 - Bonds2, Bonds2)
               else (4 - Bonds1, Bonds1, Bonds2, 4 - Bonds2))
         of (Initial1, End1, Initial2, End2) \<Rightarrow>
           Some (NpFloat (fl_mul ops E
                   (fl_of_real ops (of_int (End1 + End2 - Initial1 - Initial2))))))
      })"

text \<open>Lines 98 and 99 (and again 101 and 102): the two assignments, in this order.\<close>

definition swap_atoms :: "lattice \<Rightarrow> int \<Rightarrow> int \<Rightarrow> int \<Rightarrow> int \<Rightarrow> int \<Rightarrow> int \<Rightarrow> lattice option" where
  "swap_atoms alloy r c row2 column2 atom1 atom2 = do {
     a \<leftarrow> set2 alloy r c atom2;
     set2 a row2 column2 atom1
   }"

text \<open>Line 45: \<open>kT = 8.617332*10**-5*T\<close>, that is \<open>(8.617332 * 10**-5) * T\<close>, where
  \<open>10**-5\<close> is the double \<open>1e-05\<close>.\<close>

definition kT_of :: "'f float_ops \<Rightarrow> 'f \<Rightarrow> 'f" where
  "kT_of ops T = fl_mul ops (fl_mul ops (fl_of_real ops 8.617332) (fl_of_real ops (1 / 10 ^ 5))) T"

text \<open>Line 97: the test \<open>e<0\<close>.\<close>

definition less_zero :: "'f float_ops \<Rightarrow> 'f py_num \<Rightarrow> bool" where
  "less_zero ops e =
     (case e of PyInt i \<Rightarrow> i < 0 | NpFloat x \<Rightarrow> fl_less ops x (fl_of_real ops 0))"

text \<open>
  Line 100: the quotient \<open>-e/kT\<close>. A Python integer divided by a float zero raises
  ZeroDivisionError; a numpy scalar divided by zero is an infinity or a NaN, as the
  double division gives it.
\<close>

definition neg_over :: "'f float_ops \<Rightarrow> 'f py_num \<Rightarrow> 'f \<Rightarrow> 'f option" where
  "neg_over ops e kT =
     (case e of
        PyInt i \<Rightarrow>
          (if fl_is_zero ops kT then None
           else Some (fl_div ops (fl_of_real ops (of_int (- i))) kT))
      | NpFloat x \<Rightarrow> Some (fl_div ops (fl_neg ops x) kT))"

text \<open>
  The whole step. \<open>randint(0, N, 2)\<close> raises ValueError unless \<open>0 < N\<close>. The comparison
  \<open>np.exp(-e/kT) > u\<close> of line 100 is \<open>u < np.exp(-e/kT)\<close>.
\<close>

definition MC_swap :: "'f float_ops \<Rightarrow> lattice \<Rightarrow> int \<Rightarrow> 'f \<Rightarrow> 'f \<Rightarrow> 'f rand \<Rightarrow> lattice option" where
  "MC_swap ops alloy N E T rnd =
     (if N \<le> 0 then None
      else do {
        atom1 \<leftarrow> get2 alloy (random_atom0 rnd) (random_atom1 rnd);
        (case select_neighbour N (random_atom0 rnd) (random_atom1 rnd) (random_neighbour rnd)
         of (row2, column2) \<Rightarrow> do {
           atom2 \<leftarrow> get2 alloy row2 column2;
           e \<leftarrow> energy ops alloy N E (random_atom0 rnd) (random_atom1 rnd) row2 column2
                  atom1 atom2;
           (if less_zero ops e then
              swap_atoms alloy (random_atom0 rnd) (random_atom1 rnd) row2 column2 atom1 atom2
            else do {
              q \<leftarrow> neg_over ops e (kT_of ops T);
              (if fl_less ops (uniform rnd) (fl_exp ops q) then
                 swap_atoms alloy (random_atom0 rnd) (random_atom1 rnd) row2 column2 atom1 atom2
               else Some alloy)
            })
         })
      })"

section \<open>The statistics scan of \<open>test2D\<close>\<close>

text \<open>Lines 121 to 124: \<open>i - 2 % N\<close> is \<open>i - (2 % N)\<close>, and may be negative.\<close>

definition scan_index :: "int \<Rightarrow> int \<Rightarrow> int \<Rightarrow> int \<times> int \<times> int \<times> int" where
  "scan_index N i j = (i - 2 mod N, i mod N, j - 2 mod N, j mod N)"

text \<open>Line 126: the four cells read around the site \<open>(i, j)\<close>, summed. Evaluating
  \<open>2 % N\<close> raises ZeroDivisionError when \<open>N = 0\<close>.\<close>

definition scan_bond :: "lattice \<Rightarrow> int \<Rightarrow> int \<Rightarrow> int \<Rightarrow> int option" where
  "scan_bond alloy N i j =
     (if N = 0 then None
      else (case scan_index N i j of (up, down, left, right) \<Rightarrow> do {
        a \<leftarrow> get2 alloy down j;
        b \<leftarrow> get2 alloy up j;
        c \<leftarrow> get2 alloy i right;
        d \<leftarrow> get2 alloy i left;
        Some (a + b + c + d)
      }))"

text \<open>Lines 128 and 130: \<open>h[bond] = h[bond] + 1\<close> on a one-dimensional array.\<close>

definition bump :: "int list \<Rightarrow> int \<Rightarrow> int list option" where
  "bump h bond = do {
     k \<leftarrow> np_index (length h) bond;
     Some (h[k := h ! k + 1])
   }"

text \<open>Lines 120 to 130: the body of the inner loop, on the state \<open>(n_a, n_b)\<close>.\<close>

definition scan_site ::
  "lattice \<Rightarrow> int \<Rightarrow> int \<Rightarrow> int \<Rightarrow> int list \<times> int list \<Rightarrow> (int list \<times> int list) option" where
  "scan_site alloy N i j s =
     (case s of (n_a, n_b) \<Rightarrow> do {
        bond \<leftarrow> scan_bond alloy N i j;
        x \<leftarrow> get2 alloy i j;
        (if x = 0 then do { n_a' \<leftarrow> bump n_a bond; Some (n_a', n_b) }
         else do { n_b' \<leftarrow> bump n_b bond; Some (n_a, n_b') })
      })"

text \<open>Lines 116 to 130: both tallies start as \<open>np.zeros(5)\<close>; two nested loops.\<close>

definition scan :: "lattice \<Rightarrow> int \<Rightarrow> (int list \<times> int list) option" where
  "scan alloy N =
     for_loop (py_range N) (\<lambda>i. for_loop (py_range N) (\<lambda>j. scan_site alloy N i j))
       (replicate 5 0, replicate 5 0)"

text \<open>Line 132: \<open>n = n_a + np.flip(n_b)\<close>, the observed histogram.\<close>

definition observed :: "lattice \<Rightarrow> int \<Rightarrow> int list option" where
  "observed alloy N = map_option (\<lambda>s. map2 (+) (fst s) (rev (snd s))) (scan alloy N)"

text \<open>Lines 105 to 107: \<open>math.factorial\<close> raises ValueError on a negative argument.\<close>

definition nCr :: "nat \<Rightarrow> nat \<Rightarrow> nat option" where
  "nCr n r = (if r \<le> n then Some (fact n div fact r div fact (n - r)) else None)"

text \<open>Line 137, for \<open>i\<close> in \<open>range(5)\<close>, in exact arithmetic.\<close>

definition Frac :: "real \<Rightarrow> nat \<Rightarrow> real" where
  "Frac Xa i = Xa * Xa ^ (4 - i) * (1 - Xa) ^ i + (1 - Xa) * Xa ^ i * (1 - Xa) ^ (4 - i)"

text \<open>Lines 135 to 138: the theoretical histogram \<open>prob\<close>, which starts as \<open>np.zeros(5)\<close>.\<close>

definition prob :: "real \<Rightarrow> int \<Rightarrow> real list option" where
  "prob Xa N =
     for_loop [0..<5]
       (\<lambda>i p. do { Con \<leftarrow> nCr 4 i; Some (p[i := real Con * Frac Xa i * \<bar>real_of_int N\<bar> ^ 2]) })
       (replicate 5 0)"

section \<open>The driver \<open>Create_alloy\<close>\<close>

text \<open>\<open>reshape(N, N)\<close> of a one-dimensional array raises ValueError unless the array has
  \<open>N * N\<close> elements (and for a negative \<open>N\<close>); the rows are consecutive slices.\<close>

definition reshape :: "int list \<Rightarrow> int \<Rightarrow> lattice option" where
  "reshape flat N =
     (if N < 0 \<or> int (length flat) \<noteq> N * N then None
      else Some (map (\<lambda>i. take (nat N) (drop (i * nat N) flat)) [0..<nat N]))"

text \<open>
  Lines 26 and 27: \<open>n_a = int(N**2*Xa)\<close> and \<open>n_b = int(N**2*(1-Xa))\<close>, in double
  arithmetic. \<open>np.random.permutation\<close> is the argument \<open>shuffle\<close>; its contract is that
  the result is a permutation of its argument. \<open>np.ones\<close> and \<open>np.zeros\<close> raise
  ValueError on a negative size.
\<close>

definition initial_alloy ::
  "'f float_ops \<Rightarrow> int \<Rightarrow> 'f \<Rightarrow> (int list \<Rightarrow> int list) \<Rightarrow> lattice option" where
  "initial_alloy ops N Xa shuffle = do {
     n_a \<leftarrow> fl_trunc ops (fl_mul ops (fl_of_real ops (of_int (N ^ 2))) Xa);
     n_b \<leftarrow> fl_trunc ops (fl_mul ops (fl_of_real ops (of_int (N ^ 2)))
                             (fl_sub ops (fl_of_real ops 1) Xa));
     (if n_a < 0 \<or> n_b < 0 then None
      else reshape (shuffle (replicate (nat n_a) 1 @ replicate (nat n_b) 0)) N)
   }"

text \<open>Lines 28 to 30: \<open>n\<close> steps in sequence; step \<open>i\<close> consumes the random numbers
  \<open>rnds i\<close>.\<close>

definition swap_loop ::
  "'f float_ops \<Rightarrow> lattice \<Rightarrow> int \<Rightarrow> 'f \<Rightarrow> 'f \<Rightarrow> int \<Rightarrow> (nat \<Rightarrow> 'f rand) \<Rightarrow> lattice option" where
  "swap_loop ops alloy N E T n rnds =
     for_loop [0..<nat n] (\<lambda>i a. MC_swap ops a N E T (rnds i)) alloy"

definition Create_alloy ::
  "'f float_ops \<Rightarrow> int \<Rightarrow> 'f \<Rightarrow> int \<Rightarrow> 'f \<Rightarrow> 'f \<Rightarrow> (int list \<Rightarrow> int list) \<Rightarrow> (nat \<Rightarrow> 'f rand)
     \<Rightarrow> lattice option" where
  "Create_alloy ops N Xa n T E shuffle rnds = do {
     alloy \<leftarrow> initial_alloy ops N Xa shuffle;
     swap_loop ops alloy N E T n rnds
   }"

section \<open>Notions of the specification\<close>

text \<open>The number of cells of a lattice that hold the value \<open>v\<close>.\<close>

definition count_cells :: "int \<Rightarrow> lattice \<Rightarrow> nat" where
  "count_cells v alloy = count_list (concat alloy) v"

text \<open>The specification's rule for the unlike bonds of a site of a given species whose
  four neighbours' values sum to \<open>s\<close>.\<close>

definition unlike_bonds :: "int \<Rightarrow> int \<Rightarrow> int" where
  "unlike_bonds species s = (if species = 0 then s else 4 - s)"

text \<open>The values of the four cells the scan reads around \<open>(i, j)\<close>, the number of them
  that differ from the site's own value, and the number of sites where that number is \<open>k\<close>.\<close>

definition scan_neighbours :: "lattice \<Rightarrow> int \<Rightarrow> int \<Rightarrow> int \<Rightarrow> int option list" where
  "scan_neighbours alloy N i j =
     (case scan_index N i j of (up, down, left, right) \<Rightarrow>
        [get2 alloy down j, get2 alloy up j, get2 alloy i right, get2 alloy i left])"

definition unlike_neighbours :: "lattice \<Rightarrow> int \<Rightarrow> int \<Rightarrow> int \<Rightarrow> nat" where
  "unlike_neighbours alloy N i j =
     length (filter (\<lambda>v. v \<noteq> get2 alloy i j) (scan_neighbours alloy N i j))"

definition sites :: "int \<Rightarrow> (int \<times> int) list" where
  "sites N = List.product (py_range N) (py_range N)"

definition sites_with_unlike :: "lattice \<Rightarrow> int \<Rightarrow> nat \<Rightarrow> nat" where
  "sites_with_unlike alloy N k =
     length (filter (\<lambda>p. unlike_neighbours alloy N (fst p) (snd p) = k) (sites N))"

section \<open>Reads and writes inside the lattice\<close>

lemma np_index_in: "0 \<le> i \<Longrightarrow> i < int n \<Longrightarrow> np_index n i = Some (nat i)"
  by (simp add: np_index_def)

lemma wf_length: "wf_lattice N alloy \<Longrightarrow> length alloy = nat N"
  by (auto simp: wf_lattice_def)

lemma wf_row: "wf_lattice N alloy \<Longrightarrow> r < length alloy \<Longrightarrow> length (alloy ! r) = nat N"
  by (auto simp: wf_lattice_def list_all_length)

lemma get2_in:
  assumes "wf_lattice N alloy" "0 \<le> i" "i < N" "0 \<le> j" "j < N"
  shows "get2 alloy i j = Some (alloy ! nat i ! nat j)"
proof -
  have l: "length alloy = nat N" using assms(1) by (rule wf_length)
  have r: "length (alloy ! nat i) = nat N" using assms l by (simp add: wf_row)
  show ?thesis using assms l r by (simp add: get2_def np_index_in)
qed

lemma set2_in:
  assumes "wf_lattice N alloy" "0 \<le> i" "i < N" "0 \<le> j" "j < N"
  shows "set2 alloy i j v = Some (alloy[nat i := (alloy ! nat i)[nat j := v]])"
proof -
  have l: "length alloy = nat N" using assms(1) by (rule wf_length)
  have r: "length (alloy ! nat i) = nat N" using assms l by (simp add: wf_row)
  show ?thesis using assms l r by (simp add: set2_def np_index_in)
qed

lemma wf_update:
  assumes "wf_lattice N alloy" "r < length alloy"
  shows "wf_lattice N (alloy[r := (alloy ! r)[c := v]])"
  using assms by (auto simp: wf_lattice_def list_all_length nth_list_update)

lemma binary_cell:
  assumes "binary alloy" "r < length alloy" "c < length (alloy ! r)"
  shows "alloy ! r ! c = 0 \<or> alloy ! r ! c = 1"
  using assms by (auto simp: binary_def list_all_length)

lemma select_neighbour_range:
  assumes "0 < N" "0 \<le> r" "r < N" "0 \<le> c" "c < N"
  shows "0 \<le> fst (select_neighbour N r c d) \<and> fst (select_neighbour N r c d) < N \<and>
         0 \<le> snd (select_neighbour N r c d) \<and> snd (select_neighbour N r c d) < N"
  using assms by (simp add: select_neighbour_def)

lemma Bonds_in:
  assumes "wf_lattice N alloy" "0 < N" "0 \<le> r" "r < N" "0 \<le> c" "c < N"
  shows "Bonds alloy N r c =
    Some (alloy ! nat r ! nat c + alloy ! nat ((r - 2) mod N) ! nat c
          + alloy ! nat r ! nat c + alloy ! nat r ! nat ((c - 2) mod N))"
  using assms by (simp add: Bonds_def swap_index_def get2_in)

section \<open>The neighbour rule of the swap step\<close>

text \<open>
  Claim C2 says that each of the four neighbours used by the swap step differs from the
  site \<open>(r, c)\<close> in exactly one coordinate, the backward one ("up", "left") holding
  \<open>(index - 1) mod N\<close> there and the forward one \<open>index mod N\<close>. The code does not select
  adjacent sites. On the \<open>5 \<times> 5\<close> lattice "up" of the site \<open>(0, 0)\<close> is \<open>(3, 0)\<close>, two
  rows away, and not \<open>((0 - 1) mod 5, 0)\<close>; "right" and "down" of the site \<open>(2, 3)\<close> are
  the site \<open>(2, 3)\<close> itself, no coordinate changed; "left" of \<open>(2, 3)\<close> is \<open>(2, 0)\<close>, its
  column computed from the row index, and not \<open>(2, (3 - 1) mod 5)\<close>. The bond computation
  reads around \<open>(0, 0)\<close> the rows 3 and 0 and the columns 3 and 0.
\<close>

theorem select_neighbour_not_adjacent:
  "select_neighbour 5 0 0 1 = (3, 0) \<and> select_neighbour 5 0 0 1 \<noteq> ((0 - 1) mod 5, 0) \<and>
   select_neighbour 5 2 3 2 = (2, 3) \<and> select_neighbour 5 2 3 3 = (2, 3) \<and>
   select_neighbour 5 2 3 4 = (2, 0) \<and> select_neighbour 5 2 3 4 \<noteq> (2, (3 - 1) mod 5) \<and>
   swap_index 5 0 0 = (3, 0, 3, 0)"
  by (simp add: select_neighbour_def swap_index_def)

section \<open>The energy difference\<close>

text \<open>
  Claim C3. In a swap step on a binary lattice let \<open>atom1\<close> and \<open>atom2\<close> be the values at
  the selected site \<open>(r, c)\<close> and at its selected neighbour \<open>(row2, column2)\<close>, and let
  \<open>s1\<close> and \<open>s2\<close> be the sums of the values of the four cells the step resolves around
  each of the two sites: the cells of the rows \<open>index mod N\<close> and \<open>(index - 2) mod N\<close> in
  the site's column and of the columns \<open>index mod N\<close> and \<open>(index - 2) mod N\<close> in the
  site's row. The step reads \<open>atom1\<close> and \<open>atom2\<close>, and: if they are equal then \<open>e\<close> is
  the integer \<open>0\<close>; otherwise \<open>e\<close> is the product of \<open>E\<close> and
  \<open>(after1 + after2) - (before1 + before2)\<close>, where the unlike-bond count of a site is the
  sum for species \<open>0\<close> and four minus the sum for species \<open>1\<close>, "before" with the site's
  own species and "after" with the other site's species.
\<close>

theorem energy_rule:
  assumes "wf_lattice N alloy" "binary alloy" "0 < N" "0 \<le> r" "r < N" "0 \<le> c" "c < N"
    and "select_neighbour N r c d = (row2, column2)"
    and "atom1 = alloy ! nat r ! nat c"
    and "atom2 = alloy ! nat row2 ! nat column2"
    and "s1 = alloy ! nat (r mod N) ! nat c + alloy ! nat ((r - 2) mod N) ! nat c
              + alloy ! nat r ! nat (c mod N) + alloy ! nat r ! nat ((c - 2) mod N)"
    and "s2 = alloy ! nat (row2 mod N) ! nat column2 + alloy ! nat ((row2 - 2) mod N) ! nat column2
              + alloy ! nat row2 ! nat (column2 mod N) + alloy ! nat row2 ! nat ((column2 - 2) mod N)"
  shows "get2 alloy r c = Some atom1 \<and> get2 alloy row2 column2 = Some atom2 \<and>
         energy ops alloy N E r c row2 column2 atom1 atom2 =
           Some (if atom1 = atom2 then PyInt 0
                 else NpFloat (fl_mul ops E (fl_of_real ops (of_int
                        ((unlike_bonds atom2 s1 + unlike_bonds atom1 s2)
                         - (unlike_bonds atom1 s1 + unlike_bonds atom2 s2))))))"
proof -
  have rg: "0 \<le> row2" "row2 < N" "0 \<le> column2" "column2 < N"
    using select_neighbour_range [OF assms(3-7), of d] assms(8) by simp_all
  have B1: "Bonds alloy N r c = Some s1"
    using Bonds_in [OF assms(1) assms(3-7)] assms(4-7) by (simp add: assms(11))
  have B2: "Bonds alloy N row2 column2 = Some s2"
    using Bonds_in [OF assms(1) assms(3) rg] rg by (simp add: assms(12))
  have g1: "get2 alloy r c = Some atom1"
    using get2_in [OF assms(1) assms(4-7)] by (simp add: assms(9))
  have g2: "get2 alloy row2 column2 = Some atom2"
    using get2_in [OF assms(1) rg] by (simp add: assms(10))
  have l: "length alloy = nat N" using assms(1) by (rule wf_length)
  have b1: "atom1 = 0 \<or> atom1 = 1"
    unfolding assms(9) using assms l by (intro binary_cell) (simp_all add: wf_row)
  have b2: "atom2 = 0 \<or> atom2 = 1"
    unfolding assms(10) using assms(1,2) l rg by (intro binary_cell) (simp_all add: wf_row)
  have "energy ops alloy N E r c row2 column2 atom1 atom2 =
           Some (if atom1 = atom2 then PyInt 0
                 else NpFloat (fl_mul ops E (fl_of_real ops (of_int
                        ((unlike_bonds atom2 s1 + unlike_bonds atom1 s2)
                         - (unlike_bonds atom1 s1 + unlike_bonds atom2 s2))))))"
  proof (cases "atom1 = atom2")
    case True
    then show ?thesis by (simp add: energy_def)
  next
    case False
    show ?thesis
    proof (cases "atom1 = 0")
      case True
      then have "atom2 = 1" using False b2 by auto
      then show ?thesis using True by (simp add: energy_def B1 B2 unlike_bonds_def)
    next
      case nz: False
      then have "atom1 = 1" "atom2 = 0" using False b1 b2 by auto
      then show ?thesis by (simp add: energy_def B1 B2 unlike_bonds_def)
    qed
  qed
  then show ?thesis using g1 g2 by simp
qed

theorem energy_rule_witness:
  "wf_lattice 3 [[1,0,0],[0,1,0],[0,0,1]] \<and> binary [[1,0,0],[0,1,0],[0,0,1]] \<and>
   select_neighbour 3 0 0 1 = (1, 0) \<and>
   get2 [[1,0,0],[0,1,0],[0,0,1]] 0 0 = Some 1 \<and> get2 [[1,0,0],[0,1,0],[0,0,1]] 1 0 = Some 0 \<and>
   energy exact_ops [[1,0,0],[0,1,0],[0,0,1]] 3 (- 1) 0 0 1 0 1 0 = Some (NpFloat (- 2))"
proof -
  let ?L = "[[1,0,0],[0,1,0],[0,0,1]] :: lattice"
  have h1: "wf_lattice 3 ?L" by (simp add: wf_lattice_def)
  have h2: "binary ?L" by (simp add: binary_def)
  have h3: "select_neighbour 3 0 0 1 = (1, 0)" by (simp add: select_neighbour_def)
  have h4: "(1::int) = ?L ! nat 0 ! nat 0" by simp
  have h5: "(0::int) = ?L ! nat 1 ! nat 0" by simp
  have h6: "(2::int) = ?L ! nat (0 mod 3) ! nat 0 + ?L ! nat ((0 - 2) mod 3) ! nat 0
              + ?L ! nat 0 ! nat (0 mod 3) + ?L ! nat 0 ! nat ((0 - 2) mod 3)"
    by simp
  have h7: "(1::int) = ?L ! nat (1 mod 3) ! nat 0 + ?L ! nat ((1 - 2) mod 3) ! nat 0
              + ?L ! nat 1 ! nat (0 mod 3) + ?L ! nat 1 ! nat ((0 - 2) mod 3)"
    by simp
  from energy_rule [OF h1 h2 _ _ _ _ _ h3 h4 h5 h6 h7, of exact_ops "- 1"]
  have "get2 ?L 0 0 = Some 1 \<and> get2 ?L 1 0 = Some 0 \<and>
        energy exact_ops ?L 3 (- 1) 0 0 1 0 1 0 = Some (NpFloat (- 2))"
    by (simp add: unlike_bonds_def exact_ops_def)
  with h1 h2 h3 show ?thesis by simp
qed

section \<open>The effect of one step on the lattice\<close>

lemma nth2_update:
  assumes "r < length alloy" "c < length (alloy ! r)" "i < length alloy"
  shows "(alloy[r := (alloy ! r)[c := v]]) ! i ! j = (if i = r \<and> j = c then v else alloy ! i ! j)"
  using assms by (auto simp: nth_list_update)

lemma count_list_update:
  "i < length xs \<Longrightarrow>
   int (count_list (xs[i := v]) x) =
     int (count_list xs x) - (if xs ! i = x then 1 else 0) + (if v = x then 1 else 0)"
proof (induction xs arbitrary: i)
  case Nil
  then show ?case by simp
next
  case (Cons a xs)
  show ?case
  proof (cases i)
    case 0
    then show ?thesis by simp
  next
    case (Suc k)
    then have "k < length xs" using Cons.prems by simp
    from Cons.IH [OF this] show ?thesis using Suc by (auto split: if_splits)
  qed
qed

lemma count_concat_update:
  "r < length xss \<Longrightarrow>
   int (count_list (concat (xss[r := row])) x) =
     int (count_list (concat xss) x) - int (count_list (xss ! r) x) + int (count_list row x)"
proof (induction xss arbitrary: r)
  case Nil
  then show ?case by simp
next
  case (Cons a xss)
  then show ?case by (cases r) auto
qed

lemma count_cells_update:
  assumes "r < length alloy" "c < length (alloy ! r)"
  shows "int (count_cells x (alloy[r := (alloy ! r)[c := v]])) =
           int (count_cells x alloy) - (if alloy ! r ! c = x then 1 else 0) + (if v = x then 1 else 0)"
  unfolding count_cells_def
  using assms by (simp add: count_concat_update count_list_update)

text \<open>The lattice after the two assignments of an accepted step.\<close>

lemma swap_atoms_in:
  assumes wf: "wf_lattice N alloy"
    and r: "0 \<le> r" "r < N" and c: "0 \<le> c" "c < N"
    and r2: "0 \<le> row2" "row2 < N" and c2: "0 \<le> column2" "column2 < N"
    and a1: "alloy ! nat r ! nat c = atom1" and a2: "alloy ! nat row2 ! nat column2 = atom2"
  shows "\<exists>a'. swap_atoms alloy r c row2 column2 atom1 atom2 = Some a' \<and> wf_lattice N a' \<and>
           a' ! nat r ! nat c = atom2 \<and> a' ! nat row2 ! nat column2 = atom1 \<and>
           (\<forall>i j. i < nat N \<longrightarrow> (i, j) \<noteq> (nat r, nat c) \<longrightarrow> (i, j) \<noteq> (nat row2, nat column2) \<longrightarrow>
                  a' ! i ! j = alloy ! i ! j) \<and>
           (\<forall>x. count_cells x a' = count_cells x alloy) \<and>
           (atom1 = atom2 \<longrightarrow> a' = alloy)"
proof -
  let ?a1 = "alloy[nat r := (alloy ! nat r)[nat c := atom2]]"
  let ?a2 = "?a1[nat row2 := (?a1 ! nat row2)[nat column2 := atom1]]"
  have l: "length alloy = nat N" using wf by (rule wf_length)
  have lr: "nat r < length alloy" "nat row2 < length alloy" using l r r2 by auto
  have lc: "nat c < length (alloy ! nat r)" "nat column2 < length (alloy ! nat row2)"
    using wf lr c c2 by (auto simp: wf_row)
  have wf1: "wf_lattice N ?a1" using wf lr(1) by (rule wf_update)
  have s1: "set2 alloy r c atom2 = Some ?a1" using wf r c by (rule set2_in)
  have s2: "set2 ?a1 row2 column2 atom1 = Some ?a2" using wf1 r2 c2 by (rule set2_in)
  have sw: "swap_atoms alloy r c row2 column2 atom1 atom2 = Some ?a2"
    by (simp add: swap_atoms_def s1 s2)
  have l1: "length ?a1 = nat N" using l by simp
  have lr1: "nat row2 < length ?a1" using lr by simp
  have lc1: "nat column2 < length (?a1 ! nat row2)" using wf1 lr1 c2 by (auto simp: wf_row)
  have wf2: "wf_lattice N ?a2" using wf1 lr1 by (rule wf_update)
  have mid: "?a1 ! nat row2 ! nat column2 = atom2"
    using nth2_update [OF lr(1) lc(1) lr(2), of atom2 "nat column2"] a2 by auto
  have cell: "?a2 ! i ! j = (if i = nat row2 \<and> j = nat column2 then atom1
                             else if i = nat r \<and> j = nat c then atom2 else alloy ! i ! j)"
    if "i < nat N" for i j
  proof -
    have "?a2 ! i ! j = (if i = nat row2 \<and> j = nat column2 then atom1 else ?a1 ! i ! j)"
      using nth2_update [OF lr1 lc1, of i atom1 j] that l1 by simp
    also have "?a1 ! i ! j = (if i = nat r \<and> j = nat c then atom2 else alloy ! i ! j)"
      using nth2_update [OF lr(1) lc(1), of i atom2 j] that l by simp
    finally show ?thesis by simp
  qed
  have c1: "?a2 ! nat r ! nat c = atom2"
    using cell [of "nat r" "nat c"] r a1 a2 by auto
  have c2': "?a2 ! nat row2 ! nat column2 = atom1"
    using cell [of "nat row2" "nat column2"] r2 by auto
  have frame: "\<forall>i j. i < nat N \<longrightarrow> (i, j) \<noteq> (nat r, nat c) \<longrightarrow> (i, j) \<noteq> (nat row2, nat column2) \<longrightarrow>
                  ?a2 ! i ! j = alloy ! i ! j"
    using cell by auto
  have cnt: "count_cells x ?a2 = count_cells x alloy" for x
  proof -
    have "int (count_cells x ?a2) =
            int (count_cells x ?a1) - (if atom2 = x then 1 else 0) + (if atom1 = x then 1 else 0)"
      using count_cells_update [OF lr1 lc1, of x atom1] mid by simp
    also have "int (count_cells x ?a1) =
            int (count_cells x alloy) - (if atom1 = x then 1 else 0) + (if atom2 = x then 1 else 0)"
      using count_cells_update [OF lr(1) lc(1), of x atom2] a1 by simp
    finally show ?thesis by simp
  qed
  have same: "?a2 = alloy" if "atom1 = atom2"
  proof -
    have "(alloy ! nat r)[nat c := atom2] = alloy ! nat r"
      using that a1 by (metis list_update_id)
    then have e1: "?a1 = alloy" by simp
    have "(alloy ! nat row2)[nat column2 := atom1] = alloy ! nat row2"
      using that a2 by (metis list_update_id)
    then show ?thesis using e1 by simp
  qed
  show ?thesis using sw wf2 c1 c2' frame cnt same by blast
qed


lemma neg_over_Some:
  "\<not> fl_is_zero ops kT \<Longrightarrow> \<exists>q. neg_over ops e kT = Some q"
  by (cases e) (simp_all add: neg_over_def)

lemma energy_in:
  assumes "wf_lattice N alloy" "0 < N" "0 \<le> r" "r < N" "0 \<le> c" "c < N"
    and "0 \<le> row2" "row2 < N" "0 \<le> column2" "column2 < N"
  shows "\<exists>e. energy ops alloy N E r c row2 column2 atom1 atom2 = Some e \<and>
           (atom1 = atom2 \<longrightarrow> e = PyInt 0)"
  using Bonds_in [OF assms(1-6)] Bonds_in [OF assms(1,2) assms(7-10)]
  by (simp add: energy_def)

lemma MC_swap_result:
  assumes wf: "wf_lattice N alloy" and N: "0 < N"
    and r: "0 \<le> random_atom0 rnd" "random_atom0 rnd < N"
    and c: "0 \<le> random_atom1 rnd" "random_atom1 rnd < N"
    and sel: "select_neighbour N (random_atom0 rnd) (random_atom1 rnd) (random_neighbour rnd)
                = (row2, column2)"
    and a1: "get2 alloy (random_atom0 rnd) (random_atom1 rnd) = Some atom1"
    and a2: "get2 alloy row2 column2 = Some atom2"
    and e: "energy ops alloy N E (random_atom0 rnd) (random_atom1 rnd) row2 column2 atom1 atom2
              = Some e"
    and q: "neg_over ops e (kT_of ops T) = Some q"
  shows "\<exists>a'. MC_swap ops alloy N E T rnd =
                 Some (if less_zero ops e \<or> fl_less ops (uniform rnd) (fl_exp ops q)
                       then a' else alloy) \<and>
           wf_lattice N a' \<and>
           a' ! nat (random_atom0 rnd) ! nat (random_atom1 rnd) = atom2 \<and>
           a' ! nat row2 ! nat column2 = atom1 \<and>
           (\<forall>i j. i < nat N \<longrightarrow> (i, j) \<noteq> (nat (random_atom0 rnd), nat (random_atom1 rnd)) \<longrightarrow>
                  (i, j) \<noteq> (nat row2, nat column2) \<longrightarrow> a' ! i ! j = alloy ! i ! j) \<and>
           (\<forall>x. count_cells x a' = count_cells x alloy) \<and>
           (atom1 = atom2 \<longrightarrow> a' = alloy)"
proof -
  have rg: "0 \<le> row2" "row2 < N" "0 \<le> column2" "column2 < N"
    using select_neighbour_range [OF N r c, of "random_neighbour rnd"] sel by simp_all
  have v1: "alloy ! nat (random_atom0 rnd) ! nat (random_atom1 rnd) = atom1"
    using a1 get2_in [OF wf r c] by simp
  have v2: "alloy ! nat row2 ! nat column2 = atom2"
    using a2 get2_in [OF wf rg] by simp
  from swap_atoms_in [OF wf r c rg v1 v2]
  obtain a' where sw: "swap_atoms alloy (random_atom0 rnd) (random_atom1 rnd) row2 column2 atom1 atom2 = Some a'"
    and rest: "wf_lattice N a'"
      "a' ! nat (random_atom0 rnd) ! nat (random_atom1 rnd) = atom2"
      "a' ! nat row2 ! nat column2 = atom1"
      "\<forall>i j. i < nat N \<longrightarrow> (i, j) \<noteq> (nat (random_atom0 rnd), nat (random_atom1 rnd)) \<longrightarrow>
                  (i, j) \<noteq> (nat row2, nat column2) \<longrightarrow> a' ! i ! j = alloy ! i ! j"
      "\<forall>x. count_cells x a' = count_cells x alloy"
      "atom1 = atom2 \<longrightarrow> a' = alloy"
    by blast
  have "MC_swap ops alloy N E T rnd =
          Some (if less_zero ops e \<or> fl_less ops (uniform rnd) (fl_exp ops q) then a' else alloy)"
    using N by (simp add: MC_swap_def sel a1 a2 e sw q)
  then show ?thesis using rest by blast
qed

text \<open>Every step on a well-formed lattice with random numbers in range returns, unless
  \<open>kT\<close> is a zero.\<close>

lemma MC_swap_step:
  assumes wf: "wf_lattice N alloy" and N: "0 < N" and T: "\<not> fl_is_zero ops (kT_of ops T)"
    and v: "valid_rand N rnd"
  shows "\<exists>a'. MC_swap ops alloy N E T rnd = Some a' \<and> wf_lattice N a' \<and>
           (\<forall>x. count_cells x a' = count_cells x alloy)"
proof -
  have r: "0 \<le> random_atom0 rnd" "random_atom0 rnd < N"
    and c: "0 \<le> random_atom1 rnd" "random_atom1 rnd < N"
    using v by (simp_all add: valid_rand_def)
  obtain row2 column2 where sel:
    "select_neighbour N (random_atom0 rnd) (random_atom1 rnd) (random_neighbour rnd) = (row2, column2)"
    by (cases "select_neighbour N (random_atom0 rnd) (random_atom1 rnd) (random_neighbour rnd)")
  have rg: "0 \<le> row2" "row2 < N" "0 \<le> column2" "column2 < N"
    using select_neighbour_range [OF N r c, of "random_neighbour rnd"] sel by simp_all
  have a1: "get2 alloy (random_atom0 rnd) (random_atom1 rnd) =
              Some (alloy ! nat (random_atom0 rnd) ! nat (random_atom1 rnd))"
    using wf r c by (rule get2_in)
  have a2: "get2 alloy row2 column2 = Some (alloy ! nat row2 ! nat column2)"
    using wf rg by (rule get2_in)
  let ?x1 = "alloy ! nat (random_atom0 rnd) ! nat (random_atom1 rnd)"
  let ?x2 = "alloy ! nat row2 ! nat column2"
  from energy_in [OF wf N r c rg, of ops E ?x1 ?x2]
  obtain e where e: "energy ops alloy N E (random_atom0 rnd) (random_atom1 rnd) row2 column2
      ?x1 ?x2 = Some e"
    by (elim exE conjE)
  from neg_over_Some [OF T, of e]
  obtain q where q: "neg_over ops e (kT_of ops T) = Some q"
    by (elim exE)
  let ?acc = "less_zero ops e \<or> fl_less ops (uniform rnd) (fl_exp ops q)"
  from MC_swap_result [OF wf N r c sel a1 a2 e q]
  obtain a' where m: "MC_swap ops alloy N E T rnd = Some (if ?acc then a' else alloy)"
    and w: "wf_lattice N a'" and k: "\<forall>x. count_cells x a' = count_cells x alloy"
    by (elim exE conjE)
  show ?thesis
  proof (cases ?acc)
    case True
    then have "MC_swap ops alloy N E T rnd = Some a'" using m by simp
    then show ?thesis using w k by simp
  next
    case False
    then have "MC_swap ops alloy N E T rnd = Some alloy" using m by simp
    then show ?thesis using wf by simp
  qed
qed

lemma for_loop_MC_swap:
  assumes "0 < N" "\<not> fl_is_zero ops (kT_of ops T)"
  shows "wf_lattice N alloy \<Longrightarrow> \<forall>i \<in> set xs. valid_rand N (rnds i) \<Longrightarrow>
         \<exists>a'. for_loop xs (\<lambda>i a. MC_swap ops a N E T (rnds i)) alloy = Some a' \<and> wf_lattice N a' \<and>
           (\<forall>x. count_cells x a' = count_cells x alloy)"
proof (induction xs arbitrary: alloy)
  case Nil
  then show ?case by simp
next
  case (Cons i xs)
  from MC_swap_step [OF Cons.prems(1) assms, of "rnds i" E] Cons.prems(2)
  obtain a1 where s: "MC_swap ops alloy N E T (rnds i) = Some a1" and w: "wf_lattice N a1"
    and k: "\<forall>x. count_cells x a1 = count_cells x alloy"
    by auto
  from Cons.IH [OF w] Cons.prems(2)
  obtain a' where "for_loop xs (\<lambda>i a. MC_swap ops a N E T (rnds i)) a1 = Some a'" "wf_lattice N a'"
      "\<forall>x. count_cells x a' = count_cells x a1"
    by auto
  then show ?case using s k by simp
qed

section \<open>The acceptance rule\<close>



section \<open>Conservation of the species\<close>

text \<open>
  Claim C5. A call of \<open>MC_swap\<close> (on an \<open>N \<times> N\<close> lattice, with random numbers in their
  ranges and \<open>kT\<close> not a zero) returns a lattice with the same number of cells equal to
  \<open>1\<close> and the same number equal to \<open>0\<close>. Hence for every \<open>n\<close> the lattice returned by the
  driver's loop of \<open>n\<close> steps, and so by \<open>Create_alloy\<close>, has the counts of the lattice it
  started from.
\<close>

theorem species_conservation:
  assumes "wf_lattice N alloy" "0 < N" "\<not> fl_is_zero ops (kT_of ops T)"
    and "\<forall>i. i < nat n \<longrightarrow> valid_rand N (rnds i)"
  shows "(\<forall>rnd. valid_rand N rnd \<longrightarrow>
            (\<exists>a'. MC_swap ops alloy N E T rnd = Some a' \<and>
                  count_cells 1 a' = count_cells 1 alloy \<and>
                  count_cells 0 a' = count_cells 0 alloy)) \<and>
         (\<exists>a'. swap_loop ops alloy N E T n rnds = Some a' \<and>
               count_cells 1 a' = count_cells 1 alloy \<and>
               count_cells 0 a' = count_cells 0 alloy) \<and>
         (\<forall>Xa shuffle. initial_alloy ops N Xa shuffle = Some alloy \<longrightarrow>
            (\<exists>a'. Create_alloy ops N Xa n T E shuffle rnds = Some a' \<and>
                  count_cells 1 a' = count_cells 1 alloy \<and>
                  count_cells 0 a' = count_cells 0 alloy))"
proof -
  have one: "\<exists>a'. MC_swap ops alloy N E T rnd = Some a' \<and>
                  count_cells 1 a' = count_cells 1 alloy \<and>
                  count_cells 0 a' = count_cells 0 alloy" if "valid_rand N rnd" for rnd
    using MC_swap_step [OF assms(1-3) that, of E] by auto
  have "\<forall>i \<in> set [0..<nat n]. valid_rand N (rnds i)" using assms(4) by simp
  from for_loop_MC_swap [OF assms(2,3) assms(1) this, of E]
  have many: "\<exists>a'. swap_loop ops alloy N E T n rnds = Some a' \<and>
               count_cells 1 a' = count_cells 1 alloy \<and>
               count_cells 0 a' = count_cells 0 alloy"
    by (auto simp: swap_loop_def)
  have "\<exists>a'. Create_alloy ops N Xa n T E shuffle rnds = Some a' \<and>
                  count_cells 1 a' = count_cells 1 alloy \<and>
                  count_cells 0 a' = count_cells 0 alloy"
    if "initial_alloy ops N Xa shuffle = Some alloy" for Xa shuffle
    using many that by (simp add: Create_alloy_def)
  with one many show ?thesis by blast
qed

theorem species_conservation_witness:
  "wf_lattice 3 [[1,0,0],[0,1,0],[0,0,1]] \<and>
   \<not> fl_is_zero exact_ops (kT_of exact_ops 300) \<and>
   valid_rand 3 \<lparr>random_atom0 = 0, random_atom1 = 0, random_neighbour = 1, uniform = 1/2 :: real\<rparr> \<and>
   (\<exists>a'. swap_loop exact_ops [[1,0,0],[0,1,0],[0,0,1]] 3 (- 1) 300 2
           (\<lambda>i. \<lparr>random_atom0 = 0, random_atom1 = 0, random_neighbour = 1, uniform = 1/2 :: real\<rparr>) = Some a' \<and>
         count_cells 1 a' = 3 \<and> count_cells 0 a' = 6)"
proof -
  let ?L = "[[1,0,0],[0,1,0],[0,0,1]] :: lattice"
  let ?R = "\<lparr>random_atom0 = 0, random_atom1 = 0, random_neighbour = 1, uniform = 1/2 :: real\<rparr>"
  have h1: "wf_lattice 3 ?L" by (simp add: wf_lattice_def)
  have h2: "valid_rand 3 ?R" by (simp add: valid_rand_def)
  have h3: "\<forall>i::nat. i < nat 2 \<longrightarrow> valid_rand 3 ((\<lambda>i. ?R) i)" using h2 by simp
  have h4: "\<not> fl_is_zero exact_ops (kT_of exact_ops 300)"
    by (simp add: kT_of_def exact_ops_def)
  have k: "count_cells 1 ?L = 3" "count_cells 0 ?L = 6" by (simp_all add: count_cells_def)
  from species_conservation [OF h1 _ h4 h3, of "- 1"]
  have "\<exists>a'. swap_loop exact_ops ?L 3 (- 1) 300 2 (\<lambda>i. ?R) = Some a' \<and>
         count_cells 1 a' = 3 \<and> count_cells 0 a' = 6"
    using k by simp
  with h1 h2 h4 show ?thesis by simp
qed

section \<open>The frame of one step\<close>

text \<open>
  Claim C6. \<open>MC_swap\<close> changes no cell other than the two selected sites, and returns
  the lattice as it was when the step is rejected and when the two selected atoms are
  equal.
\<close>

theorem swap_frame:
  assumes "wf_lattice N alloy" "0 < N" "valid_rand N rnd"
    and "get2 alloy (random_atom0 rnd) (random_atom1 rnd) = Some atom1"
    and "select_neighbour N (random_atom0 rnd) (random_atom1 rnd) (random_neighbour rnd)
           = (row2, column2)"
    and "get2 alloy row2 column2 = Some atom2"
    and "energy ops alloy N E (random_atom0 rnd) (random_atom1 rnd) row2 column2 atom1 atom2
           = Some e"
    and "neg_over ops e
           (fl_mul ops (fl_mul ops (fl_of_real ops 8.617332) (fl_of_real ops (1 / 10 ^ 5))) T)
           = Some q"
  shows "\<exists>a'. MC_swap ops alloy N E T rnd = Some a' \<and> wf_lattice N a' \<and>
           (\<forall>i j. 0 \<le> i \<and> i < N \<and> 0 \<le> j \<and> j < N \<and>
                  (i, j) \<noteq> (random_atom0 rnd, random_atom1 rnd) \<and> (i, j) \<noteq> (row2, column2)
                  \<longrightarrow> get2 a' i j = get2 alloy i j) \<and>
           (\<not> (less_zero ops e \<or> fl_less ops (uniform rnd) (fl_exp ops q)) \<longrightarrow> a' = alloy) \<and>
           (atom1 = atom2 \<longrightarrow> a' = alloy)"
proof -
  have r: "0 \<le> random_atom0 rnd" "random_atom0 rnd < N"
    and c: "0 \<le> random_atom1 rnd" "random_atom1 rnd < N"
    using assms(3) by (simp_all add: valid_rand_def)
  have rg: "0 \<le> row2" "row2 < N" "0 \<le> column2" "column2 < N"
    using select_neighbour_range [OF assms(2) r c, of "random_neighbour rnd"] assms(5) by simp_all
  have q: "neg_over ops e (kT_of ops T) = Some q" using assms(8) by (simp add: kT_of_def)
  let ?acc = "less_zero ops e \<or> fl_less ops (uniform rnd) (fl_exp ops q)"
  from MC_swap_result [OF assms(1,2) r c assms(5) assms(4) assms(6) assms(7) q]
  obtain a' where m: "MC_swap ops alloy N E T rnd = Some (if ?acc then a' else alloy)"
    and w: "wf_lattice N a'"
    and fr: "\<forall>i j. i < nat N \<longrightarrow> (i, j) \<noteq> (nat (random_atom0 rnd), nat (random_atom1 rnd)) \<longrightarrow>
                  (i, j) \<noteq> (nat row2, nat column2) \<longrightarrow> a' ! i ! j = alloy ! i ! j"
    and same: "atom1 = atom2 \<longrightarrow> a' = alloy"
    by blast
  let ?b = "if ?acc then a' else alloy"
  have wb: "wf_lattice N ?b" using w assms(1) by simp
  have frame: "get2 ?b i j = get2 alloy i j"
    if "0 \<le> i \<and> i < N \<and> 0 \<le> j \<and> j < N \<and>
        (i, j) \<noteq> (random_atom0 rnd, random_atom1 rnd) \<and> (i, j) \<noteq> (row2, column2)" for i j
  proof -
    have "a' ! nat i ! nat j = alloy ! nat i ! nat j"
      using fr that r c rg by (auto simp: nat_eq_iff)
    moreover have "get2 a' i j = Some (a' ! nat i ! nat j)" using w that by (simp add: get2_in)
    moreover have "get2 alloy i j = Some (alloy ! nat i ! nat j)"
      using assms(1) that by (simp add: get2_in)
    ultimately show ?thesis by simp
  qed
  have rej: "\<not> ?acc \<longrightarrow> ?b = alloy" by simp
  have eq: "atom1 = atom2 \<longrightarrow> ?b = alloy" using same by simp
  show ?thesis using m wb frame rej eq by blast
qed

theorem swap_frame_witness:
  "wf_lattice 3 [[1,0,0],[0,1,0],[0,0,1]] \<and>
   valid_rand 3 \<lparr>random_atom0 = 0, random_atom1 = 0, random_neighbour = 1, uniform = 1/2 :: real\<rparr> \<and>
   energy exact_ops [[1,0,0],[0,1,0],[0,0,1]] 3 (- 1) 0 0 1 0 1 0 = Some (NpFloat (- 2)) \<and>
   (\<exists>a'. MC_swap exact_ops [[1,0,0],[0,1,0],[0,0,1]] 3 (- 1) 300
           \<lparr>random_atom0 = 0, random_atom1 = 0, random_neighbour = 1, uniform = 1/2 :: real\<rparr> = Some a' \<and>
         wf_lattice 3 a' \<and> get2 a' 2 2 = Some 1 \<and> get2 a' 0 1 = Some 0)"
proof -
  let ?L = "[[1,0,0],[0,1,0],[0,0,1]] :: lattice"
  let ?R = "\<lparr>random_atom0 = 0, random_atom1 = 0, random_neighbour = 1, uniform = 1/2 :: real\<rparr>"
  let ?kT = "fl_mul exact_ops (fl_mul exact_ops (fl_of_real exact_ops 8.617332)
               (fl_of_real exact_ops (1 / 10 ^ 5))) 300"
  have h1: "wf_lattice 3 ?L" by (simp add: wf_lattice_def)
  have h2: "valid_rand 3 ?R" by (simp add: valid_rand_def)
  have h3: "get2 ?L (random_atom0 ?R) (random_atom1 ?R) = Some 1"
    by (simp add: get2_def np_index_def)
  have h4: "select_neighbour 3 (random_atom0 ?R) (random_atom1 ?R) (random_neighbour ?R) = (1, 0)"
    by (simp add: select_neighbour_def)
  have h5: "get2 ?L 1 0 = Some 0" by (simp add: get2_def np_index_def)
  have h6: "energy exact_ops ?L 3 (- 1) (random_atom0 ?R) (random_atom1 ?R) 1 0 1 0
              = Some (NpFloat (- 2))"
    by (simp add: energy_def Bonds_def swap_index_def get2_def np_index_def exact_ops_def)
  have h7: "neg_over exact_ops (NpFloat (- 2)) ?kT
              = Some (fl_div exact_ops (fl_neg exact_ops (- 2)) ?kT)"
    by (simp add: neg_over_def)
  have g: "get2 ?L 2 2 = Some 1" "get2 ?L 0 1 = Some 0" by (simp_all add: get2_def np_index_def)
  from swap_frame [OF h1 _ h2 h3 h4 h5 h6 h7]
  obtain a' where m: "MC_swap exact_ops ?L 3 (- 1) 300 ?R = Some a'" and w: "wf_lattice 3 a'"
    and f: "\<forall>i j. 0 \<le> i \<and> i < 3 \<and> 0 \<le> j \<and> j < 3 \<and> (i, j) \<noteq> (0, 0) \<and> (i, j) \<noteq> (1, 0)
                  \<longrightarrow> get2 a' i j = get2 ?L i j"
    by auto
  have "get2 a' 2 2 = Some 1" using f [rule_format, of 2 2] g by simp
  moreover have "get2 a' 0 1 = Some 0" using f [rule_format, of 0 1] g by simp
  ultimately show ?thesis using h1 h2 h6 m w by simp
qed

section \<open>The neighbour rule of the statistics scan\<close>

lemma np_index_lt: "np_index n i = Some k \<Longrightarrow> k < n"
  by (auto simp: np_index_def split: if_splits)

lemma get2_np:
  assumes "wf_lattice N alloy" "np_index (nat N) i = Some r" "np_index (nat N) j = Some c"
  shows "get2 alloy i j = Some (alloy ! r ! c)"
proof -
  have l: "length alloy = nat N" using assms(1) by (rule wf_length)
  have "r < length alloy" using assms(2) l by (simp add: np_index_lt)
  then have "length (alloy ! r) = nat N" using assms(1) by (simp add: wf_row)
  then show ?thesis using assms l by (simp add: get2_def)
qed

lemma scan_backward:
  assumes "1 \<le> N" "0 \<le> i" "i < N"
  shows "np_index (nat N) (i - 2 mod N) = Some (nat ((i - 2) mod N))"
proof (cases "N \<le> 2")
  case True
  then have N: "N = 1 \<or> N = 2" using assms by arith
  then have z: "2 mod N = 0" by auto
  have "(i - 2) mod N = i" using N assms by auto
  then show ?thesis using z assms by (simp add: np_index_def)
next
  case False
  then have z: "2 mod N = 2" by simp
  show ?thesis
  proof (cases "2 \<le> i")
    case True
    then have "(i - 2) mod N = i - 2" using assms by simp
    then show ?thesis using z True assms by (simp add: np_index_def)
  next
    case below: False
    have "(i - 2) mod N = (i - 2 + N) mod N" by simp
    also have "\<dots> = i - 2 + N" using below assms False by (intro mod_pos_pos_trivial) simp_all
    finally have "(i - 2) mod N = i - 2 + N" .
    then show ?thesis using z below assms False by (simp add: np_index_def)
  qed
qed

lemma scan_forward:
  assumes "1 \<le> N" "0 \<le> i" "i < N"
  shows "np_index (nat N) (i mod N) = Some (nat (i mod N))"
  using assms by (simp add: np_index_def)

lemma swap_backward:
  assumes "1 \<le> N"
  shows "np_index (nat N) ((i - 2) mod N) = Some (nat ((i - 2) mod N))"
  using assms by (simp add: np_index_def)

lemma scan_bond_Bonds:
  assumes wf: "wf_lattice N alloy" and N: "1 \<le> N"
    and i: "0 \<le> i" "i < N" and j: "0 \<le> j" "j < N"
  shows "scan_bond alloy N i j = Bonds alloy N i j"
proof -
  have ii: "np_index (nat N) i = Some (nat i)" and jj: "np_index (nat N) j = Some (nat j)"
    using i j by (simp_all add: np_index_def)
  have up: "get2 alloy (i - 2 mod N) j = get2 alloy ((i - 2) mod N) j"
    using get2_np [OF wf scan_backward [OF N i] jj] get2_np [OF wf swap_backward [OF N] jj]
    by simp
  have left: "get2 alloy i (j - 2 mod N) = get2 alloy i ((j - 2) mod N)"
    using get2_np [OF wf ii scan_backward [OF N j]] get2_np [OF wf ii swap_backward [OF N]]
    by simp
  show ?thesis using N by (simp add: scan_bond_def Bonds_def scan_index_def swap_index_def up left)
qed

text \<open>
  Claim C7. For \<open>N \<ge> 1\<close> and every site \<open>(i, j)\<close>, the four indices the statistics scan
  computes (\<open>i - 2 % N\<close>, \<open>i % N\<close>, \<open>j - 2 % N\<close>, \<open>j % N\<close>, with numpy's wrap-around
  for a negative index) address the same rows and columns as the four indices of the swap
  step's bond computation (\<open>(i - 2) % N\<close>, \<open>i % N\<close>, \<open>(j - 2) % N\<close>, \<open>j % N\<close>), so that
  both read the same four cells of the lattice and form the same sum.
\<close>

theorem scan_uses_swap_rule:
  assumes "wf_lattice N alloy" "1 \<le> N" "0 \<le> i" "i < N" "0 \<le> j" "j < N"
    and "scan_index N i j = (up, down, left, right)"
    and "swap_index N i j = (up', down', left', right')"
  shows "np_index (nat N) up = Some (nat up') \<and> np_index (nat N) up' = Some (nat up') \<and>
         np_index (nat N) down = Some (nat down') \<and> np_index (nat N) down' = Some (nat down') \<and>
         np_index (nat N) left = Some (nat left') \<and> np_index (nat N) left' = Some (nat left') \<and>
         np_index (nat N) right = Some (nat right') \<and> np_index (nat N) right' = Some (nat right') \<and>
         get2 alloy down j = get2 alloy down' j \<and> get2 alloy up j = get2 alloy up' j \<and>
         get2 alloy i right = get2 alloy i right' \<and> get2 alloy i left = get2 alloy i left' \<and>
         scan_bond alloy N i j = Bonds alloy N i j"
proof -
  have sc: "up = i - 2 mod N" "down = i mod N" "left = j - 2 mod N" "right = j mod N"
    using assms(7) by (simp_all add: scan_index_def)
  have sw: "up' = (i - 2) mod N" "down' = i mod N" "left' = (j - 2) mod N" "right' = j mod N"
    using assms(8) by (simp_all add: swap_index_def)
  have ii: "np_index (nat N) i = Some (nat i)" and jj: "np_index (nat N) j = Some (nat j)"
    using assms(3-6) by (simp_all add: np_index_def)
  have u: "np_index (nat N) up = Some (nat up')" "np_index (nat N) up' = Some (nat up')"
    unfolding sc sw using scan_backward [OF assms(2-4)] swap_backward [OF assms(2)] by simp_all
  have l: "np_index (nat N) left = Some (nat left')" "np_index (nat N) left' = Some (nat left')"
    unfolding sc sw using scan_backward [OF assms(2) assms(5,6)] swap_backward [OF assms(2)]
    by simp_all
  have d: "np_index (nat N) down = Some (nat down')" "np_index (nat N) down' = Some (nat down')"
    unfolding sc sw using scan_forward [OF assms(2-4)] by simp_all
  have r: "np_index (nat N) right = Some (nat right')" "np_index (nat N) right' = Some (nat right')"
    unfolding sc sw using scan_forward [OF assms(2) assms(5,6)] by simp_all
  have g1: "get2 alloy down j = get2 alloy down' j" unfolding sc sw by simp
  have g2: "get2 alloy up j = get2 alloy up' j"
    using get2_np [OF assms(1) u(1) jj] get2_np [OF assms(1) u(2) jj] by simp
  have g3: "get2 alloy i right = get2 alloy i right'" unfolding sc sw by simp
  have g4: "get2 alloy i left = get2 alloy i left'"
    using get2_np [OF assms(1) ii l(1)] get2_np [OF assms(1) ii l(2)] by simp
  have b: "scan_bond alloy N i j = Bonds alloy N i j"
    using assms(1-6) by (rule scan_bond_Bonds)
  show ?thesis using u l d r g1 g2 g3 g4 b by simp
qed

theorem scan_uses_swap_rule_witness:
  "wf_lattice 3 [[1,0,0],[0,1,0],[0,0,1]] \<and>
   scan_index 3 0 1 = (- 2, 0, - 1, 1) \<and> swap_index 3 0 1 = (1, 0, 2, 1) \<and>
   np_index (nat 3) (- 2) = Some (nat 1) \<and> np_index (nat 3) (- 1) = Some (nat 2) \<and>
   get2 [[1,0,0],[0,1,0],[0,0,1]] (- 2) 1 = get2 [[1,0,0],[0,1,0],[0,0,1]] 1 1 \<and>
   get2 [[1,0,0],[0,1,0],[0,0,1]] 0 (- 1) = get2 [[1,0,0],[0,1,0],[0,0,1]] 0 2 \<and>
   scan_bond [[1,0,0],[0,1,0],[0,0,1]] 3 0 1 = Bonds [[1,0,0],[0,1,0],[0,0,1]] 3 0 1"
proof -
  let ?L = "[[1,0,0],[0,1,0],[0,0,1]] :: lattice"
  have h1: "wf_lattice 3 ?L" by (simp add: wf_lattice_def)
  have h2: "scan_index 3 0 1 = (- 2, 0, - 1, 1)" by (simp add: scan_index_def)
  have h3: "swap_index 3 0 1 = (1, 0, 2, 1)" by (simp add: swap_index_def)
  from scan_uses_swap_rule [OF h1 _ _ _ _ _ h2 h3] h1 h2 h3
  show ?thesis by simp
qed

section \<open>The scan as one loop over the sites\<close>

lemma for_loop_append:
  "for_loop (xs @ ys) body s =
     (case for_loop xs body s of None \<Rightarrow> None | Some s' \<Rightarrow> for_loop ys body s')"
  by (induction xs arbitrary: s) (simp_all split: option.splits)

lemma for_loop_map: "for_loop (map g xs) body s = for_loop xs (\<lambda>x. body (g x)) s"
  by (induction xs arbitrary: s) (simp_all split: option.splits)

lemma for_loop_product:
  "for_loop xs (\<lambda>i. for_loop ys (\<lambda>j. body i j)) s =
     for_loop (List.product xs ys) (\<lambda>p. body (fst p) (snd p)) s"
proof (induction xs arbitrary: s)
  case Nil
  then show ?case by simp
next
  case (Cons x xs)
  have "for_loop (map (Pair x) ys) (\<lambda>p. body (fst p) (snd p)) s = for_loop ys (\<lambda>j. body x j) s"
    by (simp add: for_loop_map)
  then show ?case using Cons.IH
    by (simp add: for_loop_append split: option.splits)
qed

lemma scan_sites:
  "scan alloy N =
     for_loop (sites N) (\<lambda>p. scan_site alloy N (fst p) (snd p)) (replicate 5 0, replicate 5 0)"
  unfolding scan_def sites_def by (rule for_loop_product)

lemma sites_range:
  "p \<in> set (sites N) \<Longrightarrow> 0 \<le> fst p \<and> fst p < N \<and> 0 \<le> snd p \<and> snd p < N"
  by (auto simp: sites_def py_range_def)

lemma length_sites: "0 \<le> N \<Longrightarrow> int (length (sites N)) = N * N"
  by (simp add: sites_def py_range_def)

lemma bump_in:
  assumes "length h = 5" "0 \<le> b" "b \<le> 4"
  shows "bump h b = Some (h[nat b := h ! nat b + 1])"
  using assms by (simp add: bump_def np_index_def)

lemma sum_list_bump:
  "k < length h \<Longrightarrow> sum_list (h[k := h ! k + 1]) = sum_list h + (1::int)"
proof (induction h arbitrary: k)
  case Nil
  then show ?case by simp
next
  case (Cons a h)
  then show ?case by (cases k) auto
qed

text \<open>What the scan finds at one site of a binary lattice.\<close>

lemma site_facts:
  assumes wf: "wf_lattice N alloy" and bin: "binary alloy"
    and i: "0 \<le> i" "i < N" and j: "0 \<le> j" "j < N"
  shows "\<exists>x b. get2 alloy i j = Some x \<and> (x = 0 \<or> x = 1) \<and>
           scan_bond alloy N i j = Some b \<and> 0 \<le> b \<and> b \<le> 4 \<and>
           int (unlike_neighbours alloy N i j) = (if x = 0 then b else 4 - b)"
proof -
  have N: "1 \<le> N" using i by simp
  have l: "length alloy = nat N" using wf by (rule wf_length)
  have cell: "alloy ! nat r ! nat c = 0 \<or> alloy ! nat r ! nat c = 1"
    if "0 \<le> r" "r < N" "0 \<le> c" "c < N" for r c
  proof -
    have "nat r < length alloy" using that l by simp
    moreover from this have "nat c < length (alloy ! nat r)" using wf that by (simp add: wf_row)
    ultimately show ?thesis by (rule binary_cell [OF bin])
  qed
  have ii: "np_index (nat N) i = Some (nat i)" and jj: "np_index (nat N) j = Some (nat j)"
    using i j by (simp_all add: np_index_def)
  define u where "u = (i - 2) mod N"
  define k where "k = (j - 2) mod N"
  have ur: "0 \<le> u" "u < N" and lr: "0 \<le> k" "k < N" using N by (simp_all add: u_def k_def)
  define x where "x = alloy ! nat i ! nat j"
  define a where "a = alloy ! nat u ! nat j"
  define c where "c = alloy ! nat i ! nat k"
  have gx: "get2 alloy i j = Some x" unfolding x_def using wf i j by (rule get2_in)
  have gu: "get2 alloy (i - 2 mod N) j = Some a"
    unfolding a_def u_def using get2_np [OF wf scan_backward [OF N i] jj] .
  have gl: "get2 alloy i (j - 2 mod N) = Some c"
    unfolding c_def k_def using get2_np [OF wf ii scan_backward [OF N j]] .
  have mi: "i mod N = i" "j mod N = j" using i j by simp_all
  have bx: "x = 0 \<or> x = 1" unfolding x_def using cell [OF i j] .
  have ba: "a = 0 \<or> a = 1" unfolding a_def using cell [OF ur j] .
  have bc: "c = 0 \<or> c = 1" unfolding c_def using cell [OF i lr] .
  have sb: "scan_bond alloy N i j = Some (x + a + x + c)"
    using N by (simp add: scan_bond_def scan_index_def mi gu gl gx)
  have nb: "scan_neighbours alloy N i j = [Some x, Some a, Some x, Some c]"
    by (simp add: scan_neighbours_def scan_index_def mi gu gl gx)
  have un: "int (unlike_neighbours alloy N i j) = (if a = x then 0 else 1) + (if c = x then 0 else 1)"
    by (simp add: unlike_neighbours_def nb gx)
  have rng: "0 \<le> x + a + x + c \<and> x + a + x + c \<le> 4" using bx ba bc by auto
  have "int (unlike_neighbours alloy N i j) = (if x = 0 then x + a + x + c else 4 - (x + a + x + c))"
    unfolding un using bx ba bc by auto
  then show ?thesis using gx bx sb rng by blast
qed

text \<open>One pass of the loop body, and the whole loop.\<close>

lemma scan_site_step:
  assumes wf: "wf_lattice N alloy" and bin: "binary alloy"
    and i: "0 \<le> i" "i < N" and j: "0 \<le> j" "j < N"
    and la: "length na = 5" and lb: "length nb = 5"
  shows "\<exists>na1 nb1. scan_site alloy N i j (na, nb) = Some (na1, nb1) \<and>
           length na1 = 5 \<and> length nb1 = 5 \<and>
           sum_list na1 + sum_list nb1 = sum_list na + sum_list nb + 1 \<and>
           (\<forall>k<5. na1 ! k = na ! k +
              (if get2 alloy i j = Some 0 \<and> scan_bond alloy N i j = Some (int k) then 1 else 0)) \<and>
           (\<forall>k<5. nb1 ! k = nb ! k +
              (if get2 alloy i j \<noteq> Some 0 \<and> scan_bond alloy N i j = Some (int k) then 1 else 0))"
proof -
  from site_facts [OF wf bin i j]
  obtain x b where gx: "get2 alloy i j = Some x" and sb: "scan_bond alloy N i j = Some b"
    and b: "0 \<le> b" "b \<le> 4"
    by blast
  have nb4: "nat b < 5" using b by simp
  have ib: "b = int k \<longleftrightarrow> nat b = k" for k using b by auto
  show ?thesis
  proof (cases "x = 0")
    case True
    have st: "scan_site alloy N i j (na, nb) = Some (na[nat b := na ! nat b + 1], nb)"
      using True by (simp add: scan_site_def gx sb bump_in [OF la b])
    have sm: "sum_list (na[nat b := na ! nat b + 1]) = sum_list na + 1"
      using nb4 la by (simp add: sum_list_bump)
    have el: "\<forall>k<5. (na[nat b := na ! nat b + 1]) ! k = na ! k + (if nat b = k then 1 else 0)"
      using la by (simp add: nth_list_update)
    show ?thesis using st sm el la lb True by (simp add: gx sb ib)
  next
    case False
    have st: "scan_site alloy N i j (na, nb) = Some (na, nb[nat b := nb ! nat b + 1])"
      using False by (simp add: scan_site_def gx sb bump_in [OF lb b])
    have sm: "sum_list (nb[nat b := nb ! nat b + 1]) = sum_list nb + 1"
      using nb4 lb by (simp add: sum_list_bump)
    have el: "\<forall>k<5. (nb[nat b := nb ! nat b + 1]) ! k = nb ! k + (if nat b = k then 1 else 0)"
      using lb by (simp add: nth_list_update)
    show ?thesis using st sm el la lb False by (simp add: gx sb ib)
  qed
qed

lemma scan_loop:
  assumes wf: "wf_lattice N alloy" and bin: "binary alloy"
  shows "\<forall>p \<in> set ss. 0 \<le> fst p \<and> fst p < N \<and> 0 \<le> snd p \<and> snd p < N \<Longrightarrow>
         length na = 5 \<Longrightarrow> length nb = 5 \<Longrightarrow>
         \<exists>na' nb'. for_loop ss (\<lambda>p. scan_site alloy N (fst p) (snd p)) (na, nb) = Some (na', nb') \<and>
           length na' = 5 \<and> length nb' = 5 \<and>
           sum_list na' + sum_list nb' = sum_list na + sum_list nb + int (length ss) \<and>
           (\<forall>k<5. na' ! k = na ! k + int (length (filter
              (\<lambda>p. get2 alloy (fst p) (snd p) = Some 0 \<and>
                   scan_bond alloy N (fst p) (snd p) = Some (int k)) ss))) \<and>
           (\<forall>k<5. nb' ! k = nb ! k + int (length (filter
              (\<lambda>p. get2 alloy (fst p) (snd p) \<noteq> Some 0 \<and>
                   scan_bond alloy N (fst p) (snd p) = Some (int k)) ss)))"
proof (induction ss arbitrary: na nb)
  case Nil
  then show ?case by simp
next
  case (Cons p ss)
  have rp: "0 \<le> fst p" "fst p < N" "0 \<le> snd p" "snd p < N" using Cons.prems(1) by simp_all
  from scan_site_step [OF wf bin rp Cons.prems(2,3)]
  obtain na1 nb1 where st: "scan_site alloy N (fst p) (snd p) (na, nb) = Some (na1, nb1)"
    and l1: "length na1 = 5" "length nb1 = 5"
    and s1: "sum_list na1 + sum_list nb1 = sum_list na + sum_list nb + 1"
    and a1: "\<forall>k<5. na1 ! k = na ! k +
              (if get2 alloy (fst p) (snd p) = Some 0 \<and>
                  scan_bond alloy N (fst p) (snd p) = Some (int k) then 1 else 0)"
    and b1: "\<forall>k<5. nb1 ! k = nb ! k +
              (if get2 alloy (fst p) (snd p) \<noteq> Some 0 \<and>
                  scan_bond alloy N (fst p) (snd p) = Some (int k) then 1 else 0)"
    by blast
  have rs: "\<forall>p \<in> set ss. 0 \<le> fst p \<and> fst p < N \<and> 0 \<le> snd p \<and> snd p < N"
    using Cons.prems(1) by simp
  from Cons.IH [OF rs l1]
  obtain na' nb' where lp: "for_loop ss (\<lambda>p. scan_site alloy N (fst p) (snd p)) (na1, nb1) = Some (na', nb')"
    and l2: "length na' = 5" "length nb' = 5"
    and s2: "sum_list na' + sum_list nb' = sum_list na1 + sum_list nb1 + int (length ss)"
    and a2: "\<forall>k<5. na' ! k = na1 ! k + int (length (filter
              (\<lambda>p. get2 alloy (fst p) (snd p) = Some 0 \<and>
                   scan_bond alloy N (fst p) (snd p) = Some (int k)) ss))"
    and b2: "\<forall>k<5. nb' ! k = nb1 ! k + int (length (filter
              (\<lambda>p. get2 alloy (fst p) (snd p) \<noteq> Some 0 \<and>
                   scan_bond alloy N (fst p) (snd p) = Some (int k)) ss))"
    by blast
  have lp': "for_loop (p # ss) (\<lambda>p. scan_site alloy N (fst p) (snd p)) (na, nb) = Some (na', nb')"
    using st lp by simp
  have s3: "sum_list na' + sum_list nb' = sum_list na + sum_list nb + int (length (p # ss))"
    using s1 s2 by simp
  have a3: "\<forall>k<5. na' ! k = na ! k + int (length (filter
              (\<lambda>p. get2 alloy (fst p) (snd p) = Some 0 \<and>
                   scan_bond alloy N (fst p) (snd p) = Some (int k)) (p # ss)))"
    using a1 a2 by simp
  have b3: "\<forall>k<5. nb' ! k = nb ! k + int (length (filter
              (\<lambda>p. get2 alloy (fst p) (snd p) \<noteq> Some 0 \<and>
                   scan_bond alloy N (fst p) (snd p) = Some (int k)) (p # ss)))"
    using b1 b2 by simp
  show ?case using lp' l2 s3 a3 b3 by blast
qed

lemma sum_list_map2_add:
  "length xs = length ys \<Longrightarrow> sum_list (map2 (+) xs ys) = sum_list xs + (sum_list ys :: int)"
  by (induction xs ys rule: list_induct2) simp_all

lemma length_filter_split:
  "\<forall>x \<in> set xs. R x \<longleftrightarrow> P x \<or> Q x \<Longrightarrow> \<forall>x \<in> set xs. \<not> (P x \<and> Q x) \<Longrightarrow>
   length (filter R xs) = length (filter P xs) + length (filter Q xs)"
  by (induction xs) auto

lemma scan_result:
  assumes wf: "wf_lattice N alloy" and bin: "binary alloy"
  shows "\<exists>na nb. scan alloy N = Some (na, nb) \<and> length na = 5 \<and> length nb = 5 \<and>
           sum_list na + sum_list nb = N * N \<and>
           (\<forall>k<5. na ! k = int (length (filter
              (\<lambda>p. get2 alloy (fst p) (snd p) = Some 0 \<and>
                   scan_bond alloy N (fst p) (snd p) = Some (int k)) (sites N)))) \<and>
           (\<forall>k<5. nb ! k = int (length (filter
              (\<lambda>p. get2 alloy (fst p) (snd p) \<noteq> Some 0 \<and>
                   scan_bond alloy N (fst p) (snd p) = Some (int k)) (sites N))))"
proof -
  have N: "0 \<le> N" using wf by (simp add: wf_lattice_def)
  have rs: "\<forall>p \<in> set (sites N). 0 \<le> fst p \<and> fst p < N \<and> 0 \<le> snd p \<and> snd p < N"
    using sites_range by blast
  have l0: "length (replicate 5 (0::int)) = 5" by simp
  have z: "sum_list (replicate 5 (0::int)) = 0" by (simp add: sum_list_replicate)
  have zk: "\<forall>k<5. replicate 5 (0::int) ! k = 0" by simp
  from scan_loop [OF wf bin rs l0 l0]
  show ?thesis unfolding scan_sites z using zk length_sites [OF N] by auto
qed

section \<open>The observed histogram\<close>

text \<open>
  Claim C8. For every binary \<open>N \<times> N\<close> lattice the statistics scan returns, and the
  observed histogram \<open>n\<close> is a sequence of five entries whose sum is \<open>N\<^sup>2\<close>.
\<close>

theorem histogram_sum:
  assumes "wf_lattice N alloy" "binary alloy"
  shows "\<exists>n. observed alloy N = Some n \<and> length n = 5 \<and> sum_list n = N ^ 2"
proof -
  from scan_result [OF assms]
  obtain na nb where sc: "scan alloy N = Some (na, nb)" and l: "length na = 5" "length nb = 5"
    and s: "sum_list na + sum_list nb = N * N"
    by blast
  have ob: "observed alloy N = Some (map2 (+) na (rev nb))" by (simp add: observed_def sc)
  have ln: "length (map2 (+) na (rev nb)) = 5" using l by simp
  have "sum_list (map2 (+) na (rev nb)) = sum_list na + sum_list (rev nb)"
    using l by (intro sum_list_map2_add) simp
  then have "sum_list (map2 (+) na (rev nb)) = N ^ 2"
    using s by (simp add: power2_eq_square)
  then show ?thesis using ob ln by blast
qed

theorem histogram_sum_witness:
  "wf_lattice 3 [[1,0,0],[0,1,0],[0,0,1]] \<and> binary [[1,0,0],[0,1,0],[0,0,1]] \<and>
   (\<exists>n. observed [[1,0,0],[0,1,0],[0,0,1]] 3 = Some n \<and> length n = 5 \<and> sum_list n = 9)"
proof -
  let ?L = "[[1,0,0],[0,1,0],[0,0,1]] :: lattice"
  have h1: "wf_lattice 3 ?L" by (simp add: wf_lattice_def)
  have h2: "binary ?L" by (simp add: binary_def)
  from histogram_sum [OF h1 h2] h1 h2 show ?thesis by simp
qed

text \<open>
  Claim C10. For every binary \<open>N \<times> N\<close> lattice and each \<open>k\<close> from 0 to 4, entry \<open>k\<close> of the
  observed histogram (the tallies of the sites holding \<open>0\<close> added to the reversed tallies
  of the other sites) is the number of sites, of either species, for which exactly \<open>k\<close>
  of the four cells the scan reads around the site differ from the site's own value.
\<close>

theorem histogram_counts_unlike:
  assumes "wf_lattice N alloy" "binary alloy"
  shows "\<exists>n. observed alloy N = Some n \<and> length n = 5 \<and>
           (\<forall>k<5. n ! k = int (sites_with_unlike alloy N k))"
proof -
  let ?A = "\<lambda>k p. get2 alloy (fst p) (snd p) = Some 0 \<and>
                   scan_bond alloy N (fst p) (snd p) = Some (int k)"
  let ?B = "\<lambda>k p. get2 alloy (fst p) (snd p) \<noteq> Some 0 \<and>
                   scan_bond alloy N (fst p) (snd p) = Some (int k)"
  let ?U = "\<lambda>k p. unlike_neighbours alloy N (fst p) (snd p) = k"
  from scan_result [OF assms]
  obtain na nb where sc: "scan alloy N = Some (na, nb)" and l: "length na = 5" "length nb = 5"
    and a: "\<forall>k<5. na ! k = int (length (filter (?A k) (sites N)))"
    and b: "\<forall>k<5. nb ! k = int (length (filter (?B k) (sites N)))"
    by blast
  have ob: "observed alloy N = Some (map2 (+) na (rev nb))" by (simp add: observed_def sc)
  have ln: "length (map2 (+) na (rev nb)) = 5" using l by simp
  have el: "map2 (+) na (rev nb) ! k = int (sites_with_unlike alloy N k)" if k: "k < 5" for k
  proof -
    have k4: "4 - k < 5" by simp
    have "map2 (+) na (rev nb) ! k = na ! k + rev nb ! k" using l k by simp
    also have "rev nb ! k = nb ! (4 - k)" using l k by (simp add: rev_nth)
    finally have e1: "map2 (+) na (rev nb) ! k =
        int (length (filter (?A k) (sites N))) + int (length (filter (?B (4 - k)) (sites N)))"
      using a b k k4 by simp
    have site: "(?U k p \<longleftrightarrow> ?A k p \<or> ?B (4 - k) p) \<and> \<not> (?A k p \<and> ?B (4 - k) p)"
      if p: "p \<in> set (sites N)" for p
    proof -
      have rp: "0 \<le> fst p" "fst p < N" "0 \<le> snd p" "snd p < N" using sites_range [OF p] by simp_all
      from site_facts [OF assms rp]
      obtain x c where gx: "get2 alloy (fst p) (snd p) = Some x"
        and sb: "scan_bond alloy N (fst p) (snd p) = Some c"
        and c: "0 \<le> c" "c \<le> 4"
        and un: "int (unlike_neighbours alloy N (fst p) (snd p)) = (if x = 0 then c else 4 - c)"
        by blast
      have "?U k p \<longleftrightarrow> int (unlike_neighbours alloy N (fst p) (snd p)) = int k" by simp
      also have "\<dots> \<longleftrightarrow> (if x = 0 then c = int k else 4 - c = int k)" unfolding un by simp
      also have "\<dots> \<longleftrightarrow> ?A k p \<or> ?B (4 - k) p"
        using k c unfolding gx sb by auto
      finally have "?U k p \<longleftrightarrow> ?A k p \<or> ?B (4 - k) p" .
      then show ?thesis by auto
    qed
    have "length (filter (?U k) (sites N)) =
            length (filter (?A k) (sites N)) + length (filter (?B (4 - k)) (sites N))"
      using site by (intro length_filter_split) blast+
    then show ?thesis using e1 by (simp add: sites_with_unlike_def)
  qed
  show ?thesis using ob ln el by blast
qed

theorem histogram_counts_unlike_witness:
  "wf_lattice 3 [[1,0,0],[0,1,0],[0,0,1]] \<and> binary [[1,0,0],[0,1,0],[0,0,1]] \<and>
   (\<exists>n. observed [[1,0,0],[0,1,0],[0,0,1]] 3 = Some n \<and> length n = 5 \<and>
        (\<forall>k<5. n ! k = int (sites_with_unlike [[1,0,0],[0,1,0],[0,0,1]] 3 k)))"
proof -
  let ?L = "[[1,0,0],[0,1,0],[0,0,1]] :: lattice"
  have h1: "wf_lattice 3 ?L" by (simp add: wf_lattice_def)
  have h2: "binary ?L" by (simp add: binary_def)
  from histogram_counts_unlike [OF h1 h2] h1 h2 show ?thesis by simp
qed

section \<open>The theoretical histogram\<close>

lemma range5: "[0..<5] = [0, 1, 2, 3, 4::nat]"
  by (simp add: upt_rec)

lemma replicate5: "replicate 5 x = [x, x, x, x, x]"
  by (simp add: numeral_eq_Suc)

lemma nCr_4: "nCr 4 0 = Some 1" "nCr 4 (Suc 0) = Some 4" "nCr 4 2 = Some 6" "nCr 4 3 = Some 4" "nCr 4 4 = Some 1"
  by (simp_all add: nCr_def fact_numeral)

lemma list_update_numeral: "(x # xs)[numeral k := y] = x # xs[pred_numeral k := y]"
  by (simp add: numeral_eq_Suc)

lemma prob_value:
  "prob Xa N = Some [1 * Frac Xa 0 * \<bar>real_of_int N\<bar> ^ 2, 4 * Frac Xa 1 * \<bar>real_of_int N\<bar> ^ 2,
                     6 * Frac Xa 2 * \<bar>real_of_int N\<bar> ^ 2, 4 * Frac Xa 3 * \<bar>real_of_int N\<bar> ^ 2,
                     1 * Frac Xa 4 * \<bar>real_of_int N\<bar> ^ 2]"
  by (simp add: prob_def range5 replicate5 nCr_4 list_update_numeral)

lemma binomial4: "x ^ 4 + 4 * x ^ 3 * y + 6 * x ^ 2 * y ^ 2 + 4 * x * y ^ 3 + y ^ 4 = (x + y) ^ 4"
  for x y :: real
  by (simp add: power4_eq_xxxx power3_eq_cube power2_eq_square algebra_simps)

lemma Frac_sum:
  "1 * Frac Xa 0 + 4 * Frac Xa 1 + 6 * Frac Xa 2 + 4 * Frac Xa 3 + 1 * Frac Xa 4 = 1"
proof -
  define y where "y = 1 - Xa"
  have "1 * Frac Xa 0 + 4 * Frac Xa 1 + 6 * Frac Xa 2 + 4 * Frac Xa 3 + 1 * Frac Xa 4 =
        Xa * (Xa ^ 4 + 4 * Xa ^ 3 * y + 6 * Xa ^ 2 * y ^ 2 + 4 * Xa * y ^ 3 + y ^ 4) +
        y * (Xa ^ 4 + 4 * Xa ^ 3 * y + 6 * Xa ^ 2 * y ^ 2 + 4 * Xa * y ^ 3 + y ^ 4)"
    unfolding Frac_def y_def [symmetric]
    by (simp add: algebra_simps numeral_eq_Suc)
  also have "\<dots> = (Xa + y) * (Xa + y) ^ 4" unfolding binomial4 by (simp add: algebra_simps)
  also have "\<dots> = 1" by (simp add: y_def)
  finally show ?thesis .
qed

text \<open>
  Claim C9. In exact real arithmetic the theoretical histogram, whose entry \<open>k\<close> is
  \<open>C(4,k) * (Xa * Xa^(4-k) * (1-Xa)^k + (1-Xa) * Xa^k * (1-Xa)^(4-k)) * N\<^sup>2\<close>, has five
  entries and they sum to \<open>N\<^sup>2\<close>; this holds for every \<open>N\<close> and every real \<open>Xa\<close>, in
  particular for \<open>N \<ge> 1\<close> and \<open>Xa\<close> between 0 and 1.
\<close>

theorem prob_sum:
  "\<exists>p. prob Xa N = Some p \<and> length p = 5 \<and> sum_list p = (real_of_int N) ^ 2"
proof -
  let ?q = "\<bar>real_of_int N\<bar> ^ 2"
  have "1 * Frac Xa 0 * ?q + 4 * Frac Xa 1 * ?q + 6 * Frac Xa 2 * ?q + 4 * Frac Xa 3 * ?q
          + 1 * Frac Xa 4 * ?q
        = (1 * Frac Xa 0 + 4 * Frac Xa 1 + 6 * Frac Xa 2 + 4 * Frac Xa 3 + 1 * Frac Xa 4) * ?q"
    by (simp only: distrib_right)
  also have "\<dots> = (real_of_int N) ^ 2" unfolding Frac_sum by simp
  finally show ?thesis unfolding prob_value by simp
qed

theorem prob_sum_witness:
  "prob (1/2) 3 = Some [9 / 16, 9 / 4, 27 / 8, 9 / 4, 9 / 16] \<and>
   (\<exists>p. prob (1/2) 3 = Some p \<and> length p = 5 \<and> sum_list p = 9)"
proof -
  have "prob (1/2) 3 = Some [9 / 16, 9 / 4, 27 / 8, 9 / 4, 9 / 16]"
    by (simp add: prob_value Frac_def power4_eq_xxxx power3_eq_cube power2_eq_square)
  with prob_sum [of "1/2" 3] show ?thesis by simp
qed

section \<open>The initial lattice\<close>

lemma concat_rows:
  "m * n \<le> length flat \<Longrightarrow>
   concat (map (\<lambda>i. take n (drop (i * n) flat)) [0..<m]) = take (m * n) flat"
proof (induction m)
  case 0
  then show ?case by simp
next
  case (Suc m)
  then have "concat (map (\<lambda>i. take n (drop (i * n) flat)) [0..<m]) = take (m * n) flat"
    by simp
  then have "concat (map (\<lambda>i. take n (drop (i * n) flat)) [0..<Suc m]) =
               take (m * n) flat @ take n (drop (m * n) flat)"
    by simp
  also have "\<dots> = take (m * n + n) flat" by (simp only: take_add)
  also have "m * n + n = Suc m * n" by simp
  finally show ?case .
qed

lemma reshape_ok:
  assumes "0 \<le> N" "int (length flat) = N * N"
  shows "\<exists>alloy. reshape flat N = Some alloy \<and> wf_lattice N alloy \<and> concat alloy = flat"
proof -
  let ?n = "nat N"
  let ?a = "map (\<lambda>i. take ?n (drop (i * ?n) flat)) [0..<?n]"
  have len: "length flat = ?n * ?n"
    using assms by (metis nat_int nat_mult_distrib)
  have r: "reshape flat N = Some ?a" using assms by (simp add: reshape_def)
  have row: "length (take ?n (drop (i * ?n) flat)) = ?n" if "i < ?n" for i
  proof -
    have "Suc i * ?n \<le> ?n * ?n" using that by (simp only: mult_le_mono1 Suc_leI)
    then have "?n \<le> ?n * ?n - i * ?n" by simp
    then show ?thesis using len by simp
  qed
  have wf: "wf_lattice N ?a"
    using assms(1) row by (simp add: wf_lattice_def list_all_iff)
  have "concat ?a = take (?n * ?n) flat" using len by (intro concat_rows) simp
  then have "concat ?a = flat" using len by simp
  then show ?thesis using r wf by blast
qed

lemma count_list_replicate: "count_list (replicate n x) y = (if x = y then n else 0)"
  by (induction n) (auto split: if_splits)

text \<open>When the two truncations of line 26 add up to \<open>N\<^sup>2\<close> the construction succeeds,
  with \<open>n_a\<close> cells equal to \<open>1\<close>.\<close>

lemma initial_alloy_whole:
  assumes N: "0 \<le> N" and sh: "\<forall>xs. mset (shuffle xs) = mset xs"
    and na: "fl_trunc ops (fl_mul ops (fl_of_real ops (of_int (N ^ 2))) Xa) = Some m"
    and nb: "fl_trunc ops (fl_mul ops (fl_of_real ops (of_int (N ^ 2)))
                             (fl_sub ops (fl_of_real ops 1) Xa)) = Some (N ^ 2 - m)"
    and m: "0 \<le> m" "m \<le> N ^ 2"
  shows "\<exists>alloy. initial_alloy ops N Xa shuffle = Some alloy \<and> wf_lattice N alloy \<and>
           binary alloy \<and> int (count_cells 1 alloy) = m \<and> int (count_cells 0 alloy) = N ^ 2 - m"
proof -
  let ?xs = "replicate (nat m) (1::int) @ replicate (nat (N ^ 2 - m)) 0"
  have ia: "initial_alloy ops N Xa shuffle = reshape (shuffle ?xs) N"
    using m unfolding initial_alloy_def na nb by simp
  have ms: "mset (shuffle ?xs) = mset ?xs" using sh by blast
  then have "length (shuffle ?xs) = length ?xs" by (metis size_mset)
  then have "int (length (shuffle ?xs)) = N * N" using m by (simp add: power2_eq_square)
  from reshape_ok [OF N this]
  obtain alloy where r: "reshape (shuffle ?xs) N = Some alloy" and wf: "wf_lattice N alloy"
    and c: "concat alloy = shuffle ?xs"
    by blast
  have cnt: "count_cells v alloy = count_list ?xs v" for v
    unfolding count_cells_def c using ms by (metis count_mset)
  have c1: "int (count_cells 1 alloy) = m" using m(1) by (simp add: cnt count_list_replicate)
  have c0: "int (count_cells 0 alloy) = N ^ 2 - m" using m(2) by (simp add: cnt count_list_replicate)
  have "set (concat alloy) = set ?xs" unfolding c using ms by (metis set_mset_mset)
  then have "\<forall>x \<in> set (concat alloy). x = 0 \<or> x = 1" by auto
  then have bin: "binary alloy" by (auto simp: binary_def list_all_iff)
  show ?thesis using ia r wf bin c1 c0 by simp
qed

text \<open>
  Claim C1 says that for every \<open>N > 0\<close> and every \<open>Xa\<close> between 0 and 1 the initial lattice
  (\<open>Create_alloy\<close> with \<open>n = 0\<close>) is an \<open>N \<times> N\<close> grid with \<open>\<lfloor>N\<^sup>2 * Xa\<rfloor>\<close> cells equal to
  \<open>1\<close> and the other cells equal to \<open>0\<close>, and that the construction never fails. The code
  truncates both \<open>N\<^sup>2 * Xa\<close> and \<open>N\<^sup>2 * (1 - Xa)\<close>. At \<open>N = 3\<close>, \<open>Xa = 0.5\<close> both products are
  \<open>4.5\<close>, in double arithmetic as in exact arithmetic, and both truncations are \<open>4\<close>: eight
  cells are made and \<open>reshape(3, 3)\<close> raises, whatever permutation is drawn.
\<close>

theorem Create_alloy_fails:
  assumes "\<forall>xs. mset (shuffle xs) = mset xs"
    and "fl_trunc ops (fl_mul ops (fl_of_real ops 9) Xa) = Some 4"
    and "fl_trunc ops (fl_mul ops (fl_of_real ops 9) (fl_sub ops (fl_of_real ops 1) Xa)) = Some 4"
  shows "Create_alloy ops 3 Xa 0 T E shuffle rnds = None"
proof -
  let ?xs = "replicate 4 (1::int) @ replicate 4 0"
  have "mset (shuffle ?xs) = mset ?xs" using assms(1) by blast
  then have "length (shuffle ?xs) = length ?xs" by (metis size_mset)
  then have l: "length (shuffle ?xs) = 8" by simp
  have "initial_alloy ops 3 Xa shuffle = None"
    using assms(2,3) by (simp add: initial_alloy_def reshape_def l)
  then show ?thesis by (simp add: Create_alloy_def)
qed

theorem Create_alloy_fails_witness:
  "(\<forall>xs :: int list. mset (rev xs) = mset xs) \<and>
   fl_trunc exact_ops (fl_mul exact_ops (fl_of_real exact_ops 9) (1/2)) = Some 4 \<and>
   fl_trunc exact_ops (fl_mul exact_ops (fl_of_real exact_ops 9)
      (fl_sub exact_ops (fl_of_real exact_ops 1) (1/2))) = Some 4 \<and>
   Create_alloy exact_ops 3 (1/2) 0 300 (- 1) rev
     (\<lambda>i. \<lparr>random_atom0 = 0, random_atom1 = 0, random_neighbour = 1, uniform = 1/2 :: real\<rparr>) = None"
proof -
  have h: "\<forall>xs :: int list. mset (rev xs) = mset xs" by simp
  have f: "\<lfloor>9 / 2 :: real\<rfloor> = 4" by simp
  have t1: "fl_trunc exact_ops (fl_mul exact_ops (fl_of_real exact_ops 9) (1/2)) = Some 4"
    by (simp add: exact_ops_def py_int_def f)
  have t2: "fl_trunc exact_ops (fl_mul exact_ops (fl_of_real exact_ops 9)
      (fl_sub exact_ops (fl_of_real exact_ops 1) (1/2))) = Some 4"
    by (simp add: exact_ops_def py_int_def f)
  from Create_alloy_fails [OF h t1 t2]
  have "Create_alloy exact_ops 3 (1/2) 0 300 (- 1) rev
     (\<lambda>i. \<lparr>random_atom0 = 0, random_atom1 = 0, random_neighbour = 1, uniform = 1/2 :: real\<rparr>) = None" .
  with h t1 t2 show ?thesis by (intro conjI)
qed

end
